theory Spec2Isabelle
  imports Main "HOL-Library.AList" "HOL-Library.Sublist" "HOL-Library.Word"
begin

section \<open>Data model of cache/lru.go\<close>

text \<open>
  Keys are Go strings, that is byte sequences: \<open>string\<close> (a list of 8-bit characters).
  An instant (\<open>time.Time\<close>) is an integer count of nanoseconds on the clock that
  \<open>time.Now()\<close> reads; a \<open>time.Duration\<close> is an integer count of nanoseconds.
  The zero \<open>time.Time{}\<close> ("no expiration", tested by \<open>IsZero\<close>) is \<open>None\<close>;
  \<open>time.Now().Add(ttl)\<close> is \<open>Some (now + ttl)\<close>: a duration spans less than 293 years
  either way, so adding one to a present-day clock reading never yields the zero instant
  of year 1.
\<close>

type_synonym time = int
type_synonym duration = int

text \<open>\<open>type cacheItem struct { value interface{}; expiresAt time.Time }\<close>\<close>

record 'v cacheItem =
  item_value :: 'v
  expiresAt :: "time option"

text \<open>\<open>type Stats struct { Hits int64; Misses int64; Size int }\<close>\<close>

record Stats =
  Hits :: "64 word"
  Misses :: "64 word"
  Size :: int

subsection \<open>The eviction engine\<close>

text \<open>
  Modelled from the spec: the eviction engine \<open>lru.Cache[string, cacheItem]\<close> of the
  imported package golang-lru/v2, whose code is not part of the repository (section 4.1 of
  the specification). The entries are kept in recency order, most recently used first, so
  that the last entry is the eviction candidate.
\<close>

record 'v lru =
  capacity :: int
  entries :: "(string \<times> 'v cacheItem) list"

text \<open>Modelled from the spec: the constructor \<open>lru.New\<close> of the engine, absent from the
  repository, which fails when the capacity is not positive.\<close>

definition lru_New :: "int \<Rightarrow> 'v lru option" where
  "lru_New n = (if n \<le> 0 then None else Some \<lparr>capacity = n, entries = []\<rparr>)"

text \<open>Modelled from the spec: \<open>put\<close> (\<open>Add\<close>) of the engine, absent from the repository,
  inserts or replaces and marks the key as most recently used; inserting a new key into a
  store that is at capacity first evicts the single least recently used entry; replacing
  an existing key evicts nothing.\<close>

definition lru_Add :: "'v lru \<Rightarrow> string \<Rightarrow> 'v cacheItem \<Rightarrow> 'v lru" where
  "lru_Add e k it =
     (if k \<in> fst ` set (entries e) then e\<lparr>entries := (k, it) # AList.delete k (entries e)\<rparr>
      else if capacity e \<le> int (length (entries e))
        then e\<lparr>entries := (k, it) # butlast (entries e)\<rparr>
      else e\<lparr>entries := (k, it) # entries e\<rparr>)"

text \<open>Modelled from the spec: \<open>get\<close> of the engine, absent from the repository, marks the
  key as most recently used on a hit and changes nothing on a miss.\<close>

definition lru_Get :: "'v lru \<Rightarrow> string \<Rightarrow> 'v cacheItem option \<times> 'v lru" where
  "lru_Get e k =
     (case map_of (entries e) k of
        None \<Rightarrow> (None, e)
      | Some it \<Rightarrow> (Some it, e\<lparr>entries := (k, it) # AList.delete k (entries e)\<rparr>))"

text \<open>Modelled from the spec: \<open>remove\<close> of the engine, absent from the repository, deletes
  the key if present and is a no-op otherwise.\<close>

definition lru_Remove :: "'v lru \<Rightarrow> string \<Rightarrow> 'v lru" where
  "lru_Remove e k = e\<lparr>entries := AList.delete k (entries e)\<rparr>"

text \<open>Modelled from the spec: \<open>purge\<close> of the engine, absent from the repository, clears
  all entries.\<close>

definition lru_Purge :: "'v lru \<Rightarrow> 'v lru" where
  "lru_Purge e = e\<lparr>entries := []\<rparr>"

text \<open>Modelled from the spec: \<open>len\<close> of the engine, absent from the repository, is the
  current count of entries.\<close>

definition lru_Len :: "'v lru \<Rightarrow> int" where
  "lru_Len e = int (length (entries e))"

text \<open>The keys that the engine holds.\<close>

definition lru_keys :: "'v lru \<Rightarrow> string set" where
  "lru_keys e = fst ` set (entries e)"

subsection \<open>The cache\<close>

text \<open>
  \<open>type LRUCache struct { cache *lru.Cache[string, cacheItem]; stats Stats;
  ttlMap map[string]time.Time }\<close>. The Go map \<open>ttlMap\<close> is an association list read through
  \<open>map_of\<close>; its order stands for the unspecified iteration order of \<open>range\<close>.
\<close>

record 'v LRUCache =
  cache :: "'v lru"
  stats :: Stats
  ttlMap :: "(string \<times> time) list"

text \<open>The keys of \<open>ttlMap\<close>.\<close>

definition ttl_keys :: "'v LRUCache \<Rightarrow> string set" where
  "ttl_keys c = fst ` set (ttlMap c)"

text \<open>\<open>NewLRUCache\<close>: \<open>nil\<close> (here \<open>None\<close>) when \<open>lru.New\<close> fails; the counters start at the
  zero value of \<open>Stats\<close>.\<close>

definition NewLRUCache :: "int \<Rightarrow> 'v LRUCache option" where
  "NewLRUCache n =
     (case lru_New n of
        None \<Rightarrow> None
      | Some e \<Rightarrow> Some \<lparr>cache = e, stats = \<lparr>Hits = 0, Misses = 0, Size = 0\<rparr>, ttlMap = []\<rparr>)"

text \<open>
  The operations take the reading of \<open>time.Now()\<close> as the argument \<open>now\<close> where the source
  reads the clock. The calls to \<open>logging.DebugWithFields\<close> write to the logger only and are
  left out, except for the \<open>count\<close> field logged by \<open>DeleteByPattern\<close>. An \<open>error\<close> result is
  an optional message, \<open>None\<close> for \<open>nil\<close>.
\<close>

type_synonym error = "string option"

text \<open>\<open>Get\<close> returns \<open>(interface{}, bool)\<close>: \<open>(None, False)\<close> is \<open>nil, false\<close>.\<close>

definition Get :: "'v LRUCache \<Rightarrow> time \<Rightarrow> string \<Rightarrow> ('v option \<times> bool) \<times> 'v LRUCache" where
  "Get c now key =
     (case lru_Get (cache c) key of
        (None, e) \<Rightarrow>
          ((None, False), c\<lparr>cache := e, stats := (stats c)\<lparr>Misses := Misses (stats c) + 1\<rparr>\<rparr>)
      | (Some item, e) \<Rightarrow>
          (if expiresAt item \<noteq> None \<and> the (expiresAt item) < now
           then ((None, False),
                 c\<lparr>cache := lru_Remove e key,
                   ttlMap := AList.delete key (ttlMap c),
                   stats := (stats c)\<lparr>Misses := Misses (stats c) + 1\<rparr>\<rparr>)
           else ((Some (item_value item), True),
                 c\<lparr>cache := e, stats := (stats c)\<lparr>Hits := Hits (stats c) + 1\<rparr>\<rparr>)))"

definition Set :: "'v LRUCache \<Rightarrow> string \<Rightarrow> 'v \<Rightarrow> error \<times> 'v LRUCache" where
  "Set c key v =
     (let item = \<lparr>item_value = v, expiresAt = None\<rparr>
      in (None, c\<lparr>cache := lru_Add (cache c) key item,
                  ttlMap := AList.delete key (ttlMap c)\<rparr>))"

definition SetWithTTL ::
  "'v LRUCache \<Rightarrow> time \<Rightarrow> string \<Rightarrow> 'v \<Rightarrow> duration \<Rightarrow> error \<times> 'v LRUCache" where
  "SetWithTTL c now key v ttl =
     (let item = \<lparr>item_value = v, expiresAt = Some (now + ttl)\<rparr>
      in (None, c\<lparr>cache := lru_Add (cache c) key item,
                  ttlMap := AList.update key (now + ttl) (ttlMap c)\<rparr>))"

definition Delete :: "'v LRUCache \<Rightarrow> string \<Rightarrow> error \<times> 'v LRUCache" where
  "Delete c key =
     (None, c\<lparr>cache := lru_Remove (cache c) key, ttlMap := AList.delete key (ttlMap c)\<rparr>)"

definition Clear :: "'v LRUCache \<Rightarrow> error \<times> 'v LRUCache" where
  "Clear c = (None, c\<lparr>cache := lru_Purge (cache c), ttlMap := []\<rparr>)"

text \<open>\<open>matchesPattern\<close>: \<open>len\<close> counts bytes, \<open>pattern[len(pattern)-1]\<close> is the last byte and
  \<open>pattern[:len(pattern)-1]\<close> is the pattern without it.\<close>

definition matchesPattern :: "string \<Rightarrow> string \<Rightarrow> bool" where
  "matchesPattern key pattern =
     (if length pattern > 0 \<and> pattern ! (length pattern - 1) = CHR ''*''
      then (let pfx = take (length pattern - 1) pattern
            in length key \<ge> length pfx \<and> take (length pfx) key = pfx)
      else key = pattern)"

text \<open>The first loop of \<open>DeleteByPattern\<close>: the keys of \<open>ttlMap\<close> that match, in iteration
  order.\<close>

definition keysToDelete :: "'v LRUCache \<Rightarrow> string \<Rightarrow> string list" where
  "keysToDelete c pattern = filter (\<lambda>key. matchesPattern key pattern) (map fst (ttlMap c))"

text \<open>The body of the second loop of \<open>DeleteByPattern\<close>.\<close>

definition delete_key :: "string \<Rightarrow> 'v LRUCache \<Rightarrow> 'v LRUCache" where
  "delete_key key c =
     c\<lparr>cache := lru_Remove (cache c) key, ttlMap := AList.delete key (ttlMap c)\<rparr>"

text \<open>\<open>DeleteByPattern\<close> returns \<open>error\<close>, always \<open>nil\<close>.\<close>

definition DeleteByPattern :: "'v LRUCache \<Rightarrow> string \<Rightarrow> error \<times> 'v LRUCache" where
  "DeleteByPattern c pattern = (None, fold delete_key (keysToDelete c pattern) c)"

text \<open>The value of the field \<open>count\<close> that \<open>DeleteByPattern\<close> passes to the debug log.\<close>

definition DeleteByPattern_logged_count :: "'v LRUCache \<Rightarrow> string \<Rightarrow> int" where
  "DeleteByPattern_logged_count c pattern = int (length (keysToDelete c pattern))"

text \<open>\<open>Stats\<close> stores the engine's length in \<open>c.stats.Size\<close> and returns a copy of the
  statistics.\<close>

definition StatsOf :: "'v LRUCache \<Rightarrow> Stats \<times> 'v LRUCache" where
  "StatsOf c =
     (let st = (stats c)\<lparr>Size := lru_Len (cache c)\<rparr> in (st, c\<lparr>stats := st\<rparr>))"

subsection \<open>Sequences of public operations\<close>

text \<open>A call of a public operation; the operations that read the clock carry the reading.\<close>

datatype 'v call =
    CGet time string
  | CSet string 'v
  | CSetWithTTL time string 'v duration
  | CDelete string
  | CDeleteByPattern string
  | CClear
  | CStats

fun step :: "'v call \<Rightarrow> 'v LRUCache \<Rightarrow> 'v LRUCache" where
  "step (CGet now k) c = snd (Get c now k)"
| "step (CSet k v) c = snd (Set c k v)"
| "step (CSetWithTTL now k v ttl) c = snd (SetWithTTL c now k v ttl)"
| "step (CDelete k) c = snd (Delete c k)"
| "step (CDeleteByPattern p) c = snd (DeleteByPattern c p)"
| "step CClear c = snd (Clear c)"
| "step CStats c = snd (StatsOf c)"

definition run :: "'v call list \<Rightarrow> 'v LRUCache \<Rightarrow> 'v LRUCache" where
  "run cs c = fold step cs c"

subsection \<open>The statements of the writing operations\<close>

text \<open>
  \<open>LRUCache\<close> has no lock and no method takes one: a method is a sequence of separate
  statements on the engine and on \<open>ttlMap\<close>, and statements of calls that overlap can
  alternate. One statement of \<open>Set\<close>, \<open>SetWithTTL\<close> or \<open>Delete\<close>: \<open>c.cache.Add(key, item)\<close>,
  \<open>c.cache.Remove(key)\<close>, \<open>delete(c.ttlMap, key)\<close>, \<open>c.ttlMap[key] = item.expiresAt\<close>. The
  \<open>item\<close> is local to the call and built before its first statement.
\<close>

datatype 'v stmt =
    CacheAdd string "'v cacheItem"
  | CacheRemove string
  | TtlDelete string
  | TtlStore string time

fun exec :: "'v stmt \<Rightarrow> 'v LRUCache \<Rightarrow> 'v LRUCache" where
  "exec (CacheAdd key item) c = c\<lparr>cache := lru_Add (cache c) key item\<rparr>"
| "exec (CacheRemove key) c = c\<lparr>cache := lru_Remove (cache c) key\<rparr>"
| "exec (TtlDelete key) c = c\<lparr>ttlMap := AList.delete key (ttlMap c)\<rparr>"
| "exec (TtlStore key t) c = c\<lparr>ttlMap := AList.update key t (ttlMap c)\<rparr>"

text \<open>The statements of \<open>Set\<close>, lines 96 and 97 of the source.\<close>

definition Set_stmts :: "string \<Rightarrow> 'v \<Rightarrow> 'v stmt list" where
  "Set_stmts key v = [CacheAdd key \<lparr>item_value = v, expiresAt = None\<rparr>, TtlDelete key]"

text \<open>The statements of \<open>SetWithTTL\<close>, lines 112 and 113 of the source.\<close>

definition SetWithTTL_stmts :: "time \<Rightarrow> string \<Rightarrow> 'v \<Rightarrow> duration \<Rightarrow> 'v stmt list" where
  "SetWithTTL_stmts now key v ttl =
     [CacheAdd key \<lparr>item_value = v, expiresAt = Some (now + ttl)\<rparr>, TtlStore key (now + ttl)]"

text \<open>The statements of \<open>Delete\<close>, lines 125 and 126 of the source.\<close>

definition Delete_stmts :: "string \<Rightarrow> 'v stmt list" where
  "Delete_stmts key = [CacheRemove key, TtlDelete key]"

text \<open>Two overlapping calls with the statements \<open>pa\<close> and \<open>pb\<close>, started in the state \<open>c\<close>,
  are linearizable when every interleaving of their statements ends in the state that one
  of the two orders of the whole calls ends in.\<close>

definition linearizable :: "'v LRUCache \<Rightarrow> 'v stmt list \<Rightarrow> 'v stmt list \<Rightarrow> bool" where
  "linearizable c pa pb =
     (\<forall>s \<in> shuffles pa pb.
        fold exec s c = fold exec (pa @ pb) c \<or> fold exec s c = fold exec (pb @ pa) c)"

text \<open>One interleaving of a \<open>SetWithTTL(key, v1, ttl)\<close> with a \<open>Set(key, v2)\<close>: both statements
  of \<open>Set\<close> run between the two statements of \<open>SetWithTTL\<close>.\<close>

definition overlap :: "time \<Rightarrow> string \<Rightarrow> 'v \<Rightarrow> duration \<Rightarrow> 'v \<Rightarrow> 'v stmt list" where
  "overlap now key v1 ttl v2 =
     [CacheAdd key \<lparr>item_value = v1, expiresAt = Some (now + ttl)\<rparr>,
      CacheAdd key \<lparr>item_value = v2, expiresAt = None\<rparr>,
      TtlDelete key,
      TtlStore key (now + ttl)]"

subsection \<open>Predicates used in the statements\<close>

text \<open>The engine was built with a positive capacity and holds no more entries than that.\<close>

definition lru_ok :: "'v lru \<Rightarrow> bool" where
  "lru_ok e = (0 < capacity e \<and> int (length (entries e)) \<le> capacity e)"

text \<open>The call stores a value under the key.\<close>

fun sets_key :: "string \<Rightarrow> 'v call \<Rightarrow> bool" where
  "sets_key key (CSet k v) = (k = key)"
| "sets_key key (CSetWithTTL now k v ttl) = (k = key)"
| "sets_key key call = False"

text \<open>No entry that the engine holds without a deadline is a key of \<open>ttlMap\<close>.\<close>

definition permanent_untracked :: "'v LRUCache \<Rightarrow> bool" where
  "permanent_untracked c =
     (\<forall>p \<in> set (entries (cache c)). expiresAt (snd p) = None \<longrightarrow> fst p \<notin> ttl_keys c)"

text \<open>Every entry that the engine holds under the key carries the deadline \<open>d\<close>.\<close>

definition deadline_is :: "string \<Rightarrow> time \<Rightarrow> 'v LRUCache \<Rightarrow> bool" where
  "deadline_is key d c =
     (\<forall>p \<in> set (entries (cache c)). fst p = key \<longrightarrow> expiresAt (snd p) = Some d)"

section \<open>Association lists\<close>

lemma keys_delete: "fst ` set (AList.delete k es) = fst ` set es - {k}"
  by (induction es) auto

lemma set_delete: "set (AList.delete k es) = {p \<in> set es. fst p \<noteq> k}"
  by (auto simp add: AList.delete_eq)

lemma length_delete_bound: "length (AList.delete k es) \<le> length es"
  by (simp add: AList.delete_eq)

lemma length_delete_boundss:
  assumes "k \<in> fst ` set es"
  shows "length (AList.delete k es) < length es"
proof -
  from assms obtain v where "(k, v) \<in> set es" by auto
  then show ?thesis
    unfolding AList.delete_eq by (rule length_filter_less) simp
qed

lemma map_of_butlast: "map_of (butlast es) k = Some v \<Longrightarrow> map_of es k = Some v"
  by (induction es) (auto split: if_splits)

lemma set_butlast_subset: "set (butlast es) \<subseteq> set es"
  by (induction es) auto

lemma map_of_in_keys: "map_of es k = Some v \<Longrightarrow> k \<in> fst ` set es"
  by (force dest: map_of_SomeD)

section \<open>The capacity bound\<close>

lemma lru_Add_ok:
  assumes "lru_ok e"
  shows "lru_ok (lru_Add e k it)"
proof (cases "k \<in> fst ` set (entries e)")
  case True
  then have "length (AList.delete k (entries e)) < length (entries e)"
    by (rule length_delete_boundss)
  with True assms show ?thesis by (simp add: lru_ok_def lru_Add_def)
next
  case False
  with assms show ?thesis by (auto simp add: lru_ok_def lru_Add_def)
qed

lemma lru_Remove_ok: "lru_ok e \<Longrightarrow> lru_ok (lru_Remove e k)"
  using length_delete_bound[of k "entries e"]
  by (auto simp add: lru_ok_def lru_Remove_def)

lemma lru_Purge_ok: "lru_ok e \<Longrightarrow> lru_ok (lru_Purge e)"
  by (auto simp add: lru_ok_def lru_Purge_def)

lemma lru_Get_ok:
  assumes "lru_ok e"
  shows "lru_ok (snd (lru_Get e k))"
proof (cases "map_of (entries e) k")
  case None
  with assms show ?thesis by (simp add: lru_Get_def)
next
  case (Some it)
  then have "k \<in> fst ` set (entries e)" by (rule map_of_in_keys)
  then have "length (AList.delete k (entries e)) < length (entries e)"
    by (rule length_delete_boundss)
  with Some assms show ?thesis by (auto simp add: lru_Get_def lru_ok_def)
qed

lemma lru_capacity [simp]:
  "capacity (lru_Add e k it) = capacity e"
  "capacity (lru_Remove e k) = capacity e"
  "capacity (lru_Purge e) = capacity e"
  "capacity (snd (lru_Get e k)) = capacity e"
  by (auto simp add: lru_Add_def lru_Remove_def lru_Purge_def lru_Get_def split: option.splits)

lemma delete_key_ok: "lru_ok (cache c) \<Longrightarrow> lru_ok (cache (delete_key k c))"
  by (simp add: delete_key_def lru_Remove_ok)

lemma fold_delete_key_ok: "lru_ok (cache c) \<Longrightarrow> lru_ok (cache (fold delete_key ks c))"
  by (induction ks arbitrary: c) (simp_all add: delete_key_ok)

lemma delete_key_capacity [simp]: "capacity (cache (delete_key k c)) = capacity (cache c)"
  by (simp add: delete_key_def)

lemma fold_delete_key_capacity [simp]:
  "capacity (cache (fold delete_key ks c)) = capacity (cache c)"
  by (induction ks arbitrary: c) simp_all

lemma step_ok:
  assumes "lru_ok (cache c)"
  shows "lru_ok (cache (step call c))"
proof (cases call)
  case (CGet now k)
  show ?thesis
    using assms lru_Get_ok[of "cache c" k] lru_Remove_ok[of "snd (lru_Get (cache c) k)" k]
    by (auto simp add: CGet Get_def split: prod.splits option.splits)
qed (use assms in \<open>simp_all add: Set_def SetWithTTL_def Delete_def DeleteByPattern_def
      Clear_def StatsOf_def Let_def lru_Add_ok lru_Remove_ok lru_Purge_ok fold_delete_key_ok\<close>)

lemma step_capacity [simp]: "capacity (cache (step call c)) = capacity (cache c)"
proof (cases call)
  case (CGet now k)
  show ?thesis
    by (cases "map_of (entries (cache c)) k")
       (simp_all add: CGet Get_def lru_Get_def lru_Remove_def)
qed (simp_all add: Set_def SetWithTTL_def Delete_def DeleteByPattern_def Clear_def StatsOf_def
      Let_def)

lemma run_ok: "lru_ok (cache c) \<Longrightarrow> lru_ok (cache (run cs c))"
  unfolding run_def by (induction cs arbitrary: c) (simp_all add: step_ok)

lemma run_capacity [simp]: "capacity (cache (run cs c)) = capacity (cache c)"
  unfolding run_def by (induction cs arbitrary: c) simp_all

lemma NewLRUCache_Some:
  "NewLRUCache n = Some c \<Longrightarrow> 0 < n \<and> capacity (cache c) = n \<and> lru_ok (cache c)"
  by (auto simp add: NewLRUCache_def lru_New_def lru_ok_def split: if_splits)

text \<open>
  C4. A cache constructed with a capacity \<open>n > 0\<close> exists, and after any sequence of calls
  of its public operations, in particular any sequence of \<open>Set\<close> and \<open>SetWithTTL\<close> calls
  with distinct keys, \<open>Stats().Size\<close> is at most \<open>n\<close>.
\<close>

theorem C4_size_at_most_capacity:
  assumes "0 < n"
  shows "\<exists>c0. NewLRUCache n = Some c0 \<and> (\<forall>cs. Size (fst (StatsOf (run cs c0))) \<le> n)"
proof -
  define c0 :: "'a LRUCache" where
    "c0 = \<lparr>cache = \<lparr>capacity = n, entries = []\<rparr>,
           stats = \<lparr>Hits = 0, Misses = 0, Size = 0\<rparr>, ttlMap = []\<rparr>"
  have new: "NewLRUCache n = Some c0"
    using assms by (simp add: NewLRUCache_def lru_New_def c0_def)
  have "Size (fst (StatsOf (run cs c0))) \<le> n" for cs
  proof -
    have "lru_ok (cache (run cs c0))"
      using NewLRUCache_Some[OF new] by (simp add: run_ok)
    moreover have "capacity (cache (run cs c0)) = n"
      using NewLRUCache_Some[OF new] by simp
    ultimately show ?thesis
      by (simp add: StatsOf_def Let_def lru_Len_def lru_ok_def)
  qed
  with new show ?thesis by blast
qed

theorem C4_size_at_most_capacity_witness:
  "(0::int) < 2 \<and>
   (\<exists>c0::int LRUCache. NewLRUCache 2 = Some c0 \<and>
      Size (fst (StatsOf (run [CSet ''a'' 1, CSetWithTTL 5 ''b'' 2 10, CSet ''c'' 3] c0))) \<le> 2)"
  using C4_size_at_most_capacity[of 2] by fastforce

section \<open>Clear\<close>

text \<open>
  C9. For every cache state, \<open>Clear\<close> empties both the eviction engine and the expiration
  index, so that \<open>Stats().Size\<close> becomes 0, and leaves the hit and miss counters exactly
  unchanged.
\<close>

theorem C9_clear_empties_keeps_counters:
  "entries (cache (snd (Clear c))) = []
   \<and> ttlMap (snd (Clear c)) = []
   \<and> Size (fst (StatsOf (snd (Clear c)))) = 0
   \<and> Hits (fst (StatsOf (snd (Clear c)))) = Hits (stats c)
   \<and> Misses (fst (StatsOf (snd (Clear c)))) = Misses (stats c)
   \<and> Hits (stats (snd (Clear c))) = Hits (stats c)
   \<and> Misses (stats (snd (Clear c))) = Misses (stats c)"
  by (simp add: Clear_def StatsOf_def lru_Purge_def lru_Len_def Let_def)

section \<open>Recency order\<close>

lemmas ops_defs = run_def NewLRUCache_def lru_New_def Set_def SetWithTTL_def Get_def lru_Get_def
  lru_Add_def lru_Remove_def Delete_def Let_def lru_keys_def ttl_keys_def

text \<open>
  C5. On a cache of capacity 2, the calls \<open>Set(a,1)\<close>, \<open>Set(b,2)\<close>, \<open>Get(a)\<close>, \<open>Set(c,3)\<close>
  evict exactly the key \<open>b\<close>: the engine then holds \<open>a\<close> and \<open>c\<close>, \<open>Get(a)\<close> and \<open>Get(c)\<close>
  return their stored values with found, and \<open>Get(b)\<close> returns not-found, whether the
  three reads are made one by one on that state or one after the other.
\<close>

theorem C5_lru_order:
  "case NewLRUCache 2 of
     None \<Rightarrow> False
   | Some c0 \<Rightarrow>
       (let c = run [CSet ''a'' 1, CSet ''b'' 2, CGet t ''a'', CSet ''c'' (3::int)] c0
        in lru_keys (cache c) = {''a'', ''c''}
           \<and> fst (Get c t1 ''a'') = (Some 1, True)
           \<and> fst (Get c t2 ''c'') = (Some 3, True)
           \<and> fst (Get c t3 ''b'') = (None, False)
           \<and> fst (Get (snd (Get (snd (Get c t1 ''a'')) t2 ''c'')) t3 ''b'') = (None, False)
           \<and> fst (Get (run [CSet ''a'' 1, CSet ''b'' 2] c0) t ''a'') = (Some 1, True))"
  by (simp add: ops_defs insert_commute)

section \<open>Pattern deletion\<close>

lemma take_prefix_iff:
  "(length p \<le> length k \<and> take (length p) k = p) = prefix p k"
  by (metis prefix_length_le take_is_prefix prefix_def append_eq_conv_conj)

lemma matchesPattern_iff:
  "matchesPattern key pattern =
     (if pattern \<noteq> [] \<and> last pattern = CHR ''*'' then prefix (butlast pattern) key
      else key = pattern)"
proof (cases "pattern = []")
  case True
  then show ?thesis by (simp add: matchesPattern_def)
next
  case False
  then have l: "pattern ! (length pattern - 1) = last pattern"
    by (simp add: last_conv_nth)
  have b: "take (length pattern - 1) pattern = butlast pattern"
    by (simp add: butlast_conv_take)
  have "matchesPattern key pattern =
     (if last pattern = CHR ''*''
      then length (butlast pattern) \<le> length key
           \<and> take (length (butlast pattern)) key = butlast pattern
      else key = pattern)"
    unfolding matchesPattern_def l b Let_def using False by simp
  then show ?thesis
    unfolding take_prefix_iff using False by simp
qed

text \<open>The second loop removes the collected keys whatever their order: only the set of the
  collected keys shows in the result.\<close>

lemma fold_delete_key_entries:
  "entries (cache (fold delete_key ks c)) = filter (\<lambda>p. fst p \<notin> set ks) (entries (cache c))"
proof (induction ks arbitrary: c)
  case Nil
  show ?case by simp
next
  case (Cons k ks)
  have "entries (cache (fold delete_key (k # ks) c)) =
        filter (\<lambda>p. fst p \<notin> set ks) (entries (cache (delete_key k c)))"
    by (simp add: Cons.IH)
  also have "entries (cache (delete_key k c)) = filter (\<lambda>p. fst p \<noteq> k) (entries (cache c))"
    by (simp add: delete_key_def lru_Remove_def AList.delete_eq case_prod_unfold eq_commute)
  finally show ?case
    by (simp add: conj_commute cong: filter_cong)
qed

lemma fold_delete_key_ttlMap:
  "ttlMap (fold delete_key ks c) = filter (\<lambda>p. fst p \<notin> set ks) (ttlMap c)"
proof (induction ks arbitrary: c)
  case Nil
  show ?case by simp
next
  case (Cons k ks)
  have "ttlMap (fold delete_key (k # ks) c) =
        filter (\<lambda>p. fst p \<notin> set ks) (ttlMap (delete_key k c))"
    by (simp add: Cons.IH)
  also have "ttlMap (delete_key k c) = filter (\<lambda>p. fst p \<noteq> k) (ttlMap c)"
    by (simp add: delete_key_def AList.delete_eq case_prod_unfold eq_commute)
  finally show ?case
    by (simp add: conj_commute cong: filter_cong)
qed

lemma set_keysToDelete:
  "set (keysToDelete c pattern) = {k \<in> ttl_keys c. matchesPattern k pattern}"
  by (auto simp add: keysToDelete_def ttl_keys_def)

lemma DeleteByPattern_ttlMap:
  "ttlMap (snd (DeleteByPattern c pattern)) =
     filter (\<lambda>p. \<not> matchesPattern (fst p) pattern) (ttlMap c)"
  unfolding DeleteByPattern_def snd_conv fold_delete_key_ttlMap set_keysToDelete
  by (rule filter_cong) (auto simp add: ttl_keys_def)

lemma DeleteByPattern_entries:
  "entries (cache (snd (DeleteByPattern c pattern))) =
     filter (\<lambda>p. \<not> (fst p \<in> ttl_keys c \<and> matchesPattern (fst p) pattern)) (entries (cache c))"
  unfolding DeleteByPattern_def snd_conv fold_delete_key_entries set_keysToDelete
  by simp

lemmas pat_defs = DeleteByPattern_def keysToDelete_def matchesPattern_def delete_key_def
  DeleteByPattern_logged_count_def

text \<open>
  C2 as stated fails: \<open>DeleteByPattern\<close> returns an \<open>error\<close> and nothing else. On a cache
  tracking \<open>user:1\<close> and \<open>user:2\<close>, the call with \<open>user:*\<close> removes two keys, the call with
  \<open>order:*\<close> removes none, and both return the same value \<open>nil\<close>.
\<close>

theorem C2_return_is_not_a_count:
  "case NewLRUCache 3 of
     None \<Rightarrow> False
   | Some c0 \<Rightarrow>
      (let c = run [CSetWithTTL 0 ''user:1'' (1::int) 60, CSetWithTTL 0 ''user:2'' 2 60] c0
       in fst (DeleteByPattern c ''user:*'') = fst (DeleteByPattern c ''order:*'')
          \<and> ttl_keys c = {''user:1'', ''user:2''}
          \<and> ttl_keys (snd (DeleteByPattern c ''user:*'')) = {}
          \<and> ttl_keys (snd (DeleteByPattern c ''order:*'')) = {''user:1'', ''user:2''})"
  by (simp add: ops_defs pat_defs insert_commute)

text \<open>
  C2, amended. For every pattern and cache state, \<open>DeleteByPattern\<close> returns the \<open>nil\<close>
  error to the caller; the number of keys it removed from the expiration index is not
  returned: it is the value of the field \<open>count\<close> of the debug log entry.
\<close>

theorem C2_count_is_logged_not_returned:
  "fst (DeleteByPattern c pattern) = None
   \<and> DeleteByPattern_logged_count c pattern
       = int (length (ttlMap c)) - int (length (ttlMap (snd (DeleteByPattern c pattern))))"
proof -
  have "length (ttlMap c) =
          length (filter (\<lambda>p. matchesPattern (fst p) pattern) (ttlMap c))
          + length (filter (\<lambda>p. \<not> matchesPattern (fst p) pattern) (ttlMap c))"
    by (rule sum_length_filter_compl[symmetric])
  moreover have "length (keysToDelete c pattern) =
      length (filter (\<lambda>p. matchesPattern (fst p) pattern) (ttlMap c))"
    by (simp add: keysToDelete_def filter_map comp_def)
  ultimately show ?thesis
    by (simp add: DeleteByPattern_ttlMap DeleteByPattern_logged_count_def)
       (simp add: DeleteByPattern_def)
qed

subsection \<open>Entries without a deadline are not tracked\<close>

lemma lru_Add_set:
  "set (entries (lru_Add e k it)) \<subseteq> insert (k, it) {p \<in> set (entries e). fst p \<noteq> k}"
proof (cases "k \<in> fst ` set (entries e)")
  case True
  then show ?thesis by (auto simp add: lru_Add_def set_delete)
next
  case False
  then have "set (butlast (entries e)) \<subseteq> {p \<in> set (entries e). fst p \<noteq> k}"
    using set_butlast_subset[of "entries e"] by force
  moreover have "set (entries e) \<subseteq> {p \<in> set (entries e). fst p \<noteq> k}"
    using False by force
  ultimately show ?thesis using False by (auto simp add: lru_Add_def)
qed

lemma lru_Add_front: "\<exists>rest. entries (lru_Add e k it) = (k, it) # rest"
  by (simp add: lru_Add_def)

lemma lru_Get_set: "set (entries (snd (lru_Get e k))) \<subseteq> set (entries e)"
  by (cases "map_of (entries e) k") (auto simp add: lru_Get_def set_delete dest: map_of_SomeD)

lemma lru_Remove_set:
  "set (entries (lru_Remove e k)) = {p \<in> set (entries e). fst p \<noteq> k}"
  by (simp add: lru_Remove_def set_delete)

lemma Get_entries_subset: "set (entries (cache (snd (Get c now k)))) \<subseteq> set (entries (cache c))"
  using lru_Get_set[of "cache c" k]
  by (cases "lru_Get (cache c) k")
     (auto simp add: Get_def lru_Remove_set split: option.splits)

lemma Get_ttl_subset: "ttl_keys (snd (Get c now k)) \<subseteq> ttl_keys c"
  by (cases "lru_Get (cache c) k")
     (auto simp add: Get_def ttl_keys_def set_delete split: option.splits)

text \<open>A call that stores nothing adds no entry to the engine and no key to \<open>ttlMap\<close>.\<close>

lemma step_entries_subset:
  "\<forall>key. \<not> sets_key key call \<Longrightarrow>
   set (entries (cache (step call c))) \<subseteq> set (entries (cache c))"
proof (cases call)
  case (CGet now k)
  then show ?thesis using Get_entries_subset[of c now k] by simp
next
  case (CDeleteByPattern p)
  then show ?thesis by (auto simp add: DeleteByPattern_entries)
qed (auto simp add: Delete_def Clear_def StatsOf_def Let_def lru_Remove_set lru_Purge_def)

lemma step_ttl_subset:
  "\<forall>key. \<not> sets_key key call \<Longrightarrow> ttl_keys (step call c) \<subseteq> ttl_keys c"
proof (cases call)
  case (CGet now k)
  then show ?thesis using Get_ttl_subset[of c now k] by simp
next
  case (CDeleteByPattern p)
  then show ?thesis by (auto simp add: DeleteByPattern_ttlMap ttl_keys_def)
qed (auto simp add: Delete_def Clear_def StatsOf_def Let_def ttl_keys_def set_delete)

lemma permanent_untracked_shrink:
  assumes inv: "permanent_untracked c"
    and sub: "set (entries (cache c')) \<subseteq> set (entries (cache c))"
    and ttl: "ttl_keys c' \<subseteq> ttl_keys c"
  shows "permanent_untracked c'"
  using assms unfolding permanent_untracked_def by blast

lemma permanent_untracked_store:
  assumes inv: "permanent_untracked c"
    and sub: "set (entries (cache c')) \<subseteq> insert (k, it) {p \<in> set (entries (cache c)). fst p \<noteq> k}"
    and ttl: "ttl_keys c' \<subseteq> insert k (ttl_keys c)"
    and new: "expiresAt it = None \<Longrightarrow> k \<notin> ttl_keys c'"
  shows "permanent_untracked c'"
proof -
  have "fst p \<notin> ttl_keys c'"
    if mem: "p \<in> set (entries (cache c'))" and perm: "expiresAt (snd p) = None" for p
  proof (cases "p = (k, it)")
    case True
    with perm new show ?thesis by simp
  next
    case False
    with mem sub have old: "p \<in> set (entries (cache c))" and ne: "fst p \<noteq> k" by auto
    from inv old perm have "fst p \<notin> ttl_keys c"
      unfolding permanent_untracked_def by blast
    with ne ttl show ?thesis by blast
  qed
  then show ?thesis unfolding permanent_untracked_def by blast
qed

lemma Set_ttl_keys: "ttl_keys (snd (Set c k v)) = ttl_keys c - {k}"
  by (simp add: Set_def Let_def ttl_keys_def keys_delete)

lemma SetWithTTL_ttl_keys: "ttl_keys (snd (SetWithTTL c now k v ttl)) = insert k (ttl_keys c)"
  by (simp add: SetWithTTL_def Let_def ttl_keys_def dom_update)

lemma Set_entries:
  "entries (cache (snd (Set c k v))) =
     entries (lru_Add (cache c) k \<lparr>item_value = v, expiresAt = None\<rparr>)"
  by (simp add: Set_def Let_def)

lemma SetWithTTL_entries:
  "entries (cache (snd (SetWithTTL c now k v ttl))) =
     entries (lru_Add (cache c) k \<lparr>item_value = v, expiresAt = Some (now + ttl)\<rparr>)"
  by (simp add: SetWithTTL_def Let_def)

lemma Set_permanent_untracked:
  assumes "permanent_untracked c"
  shows "permanent_untracked (snd (Set c k v))"
proof (rule permanent_untracked_store[OF assms])
  show "set (entries (cache (snd (Set c k v))))
      \<subseteq> insert (k, \<lparr>item_value = v, expiresAt = None\<rparr>)
          {p \<in> set (entries (cache c)). fst p \<noteq> k}"
    unfolding Set_entries by (rule lru_Add_set)
  show "ttl_keys (snd (Set c k v)) \<subseteq> insert k (ttl_keys c)"
    unfolding Set_ttl_keys by blast
  show "k \<notin> ttl_keys (snd (Set c k v))"
    unfolding Set_ttl_keys by blast
qed

lemma SetWithTTL_permanent_untracked:
  assumes "permanent_untracked c"
  shows "permanent_untracked (snd (SetWithTTL c now k v ttl))"
proof (rule permanent_untracked_store[OF assms])
  show "set (entries (cache (snd (SetWithTTL c now k v ttl))))
      \<subseteq> insert (k, \<lparr>item_value = v, expiresAt = Some (now + ttl)\<rparr>)
          {p \<in> set (entries (cache c)). fst p \<noteq> k}"
    unfolding SetWithTTL_entries by (rule lru_Add_set)
  show "ttl_keys (snd (SetWithTTL c now k v ttl)) \<subseteq> insert k (ttl_keys c)"
    unfolding SetWithTTL_ttl_keys by blast
  show "k \<notin> ttl_keys (snd (SetWithTTL c now k v ttl))"
    if "expiresAt \<lparr>item_value = v, expiresAt = Some (now + ttl)\<rparr> = None"
    using that by simp
qed

lemma stores_cases:
  assumes "\<not> (\<forall>key. \<not> sets_key key call)"
  obtains (bare) k v where "call = CSet k v"
    | (ttl) now k v ttl where "call = CSetWithTTL now k v ttl"
  using assms by (cases call) simp_all

lemma step_permanent_untracked:
  assumes "permanent_untracked c"
  shows "permanent_untracked (step call c)"
proof (cases "\<forall>key. \<not> sets_key key call")
  case True
  then have sub: "set (entries (cache (step call c))) \<subseteq> set (entries (cache c))"
    by (rule step_entries_subset)
  from True have ttl: "ttl_keys (step call c) \<subseteq> ttl_keys c"
    by (rule step_ttl_subset)
  show ?thesis by (rule permanent_untracked_shrink[OF assms sub ttl])
next
  case False
  then show ?thesis
  proof (cases rule: stores_cases)
    case bare
    with assms show ?thesis by (simp add: Set_permanent_untracked)
  next
    case ttl
    with assms show ?thesis by (simp add: SetWithTTL_permanent_untracked)
  qed
qed

lemma run_permanent_untracked:
  "permanent_untracked c \<Longrightarrow> permanent_untracked (run cs c)"
  unfolding run_def by (induction cs arbitrary: c) (simp_all add: step_permanent_untracked)

lemma NewLRUCache_permanent_untracked:
  "NewLRUCache n = Some c \<Longrightarrow> permanent_untracked c"
  by (auto simp add: NewLRUCache_def lru_New_def permanent_untracked_def split: if_splits)

text \<open>
  C3. For every pattern and every cache state, \<open>DeleteByPattern\<close> removes from the
  expiration index exactly the keys that match the pattern, and from the engine exactly the
  keys that are in the expiration index and match the pattern; a pattern ending in \<open>*\<close>
  matches the keys that have the pattern without that \<open>*\<close> as a prefix, any other pattern
  matches the identical key only; and in every state reached from a new cache by public
  operations, an entry stored without a TTL is never removed.
\<close>

theorem C3_deleteByPattern_removes_tracked_matches:
  "ttlMap (snd (DeleteByPattern c pattern)) =
     filter (\<lambda>p. \<not> matchesPattern (fst p) pattern) (ttlMap c)
   \<and> entries (cache (snd (DeleteByPattern c pattern))) =
     filter (\<lambda>p. \<not> (fst p \<in> ttl_keys c \<and> matchesPattern (fst p) pattern)) (entries (cache c))
   \<and> matchesPattern key pattern =
     (if pattern \<noteq> [] \<and> last pattern = CHR ''*'' then prefix (butlast pattern) key
      else key = pattern)
   \<and> (NewLRUCache n = Some c0 \<longrightarrow> c = run cs c0 \<longrightarrow>
        (k, it) \<in> set (entries (cache c)) \<longrightarrow> expiresAt it = None \<longrightarrow>
        (k, it) \<in> set (entries (cache (snd (DeleteByPattern c pattern)))))"
proof -
  have "(k, it) \<in> set (entries (cache (snd (DeleteByPattern c pattern))))"
    if new: "NewLRUCache n = Some c0" and c: "c = run cs c0"
      and mem: "(k, it) \<in> set (entries (cache c))" and perm: "expiresAt it = None"
  proof -
    have "permanent_untracked c"
      unfolding c using new by (intro run_permanent_untracked NewLRUCache_permanent_untracked)
    with mem perm have "k \<notin> ttl_keys c" unfolding permanent_untracked_def by force
    with mem show ?thesis by (simp add: DeleteByPattern_entries)
  qed
  then show ?thesis
    using DeleteByPattern_ttlMap[of c pattern] DeleteByPattern_entries[of c pattern]
      matchesPattern_iff[of key pattern]
    by blast
qed

theorem C3_deleteByPattern_removes_tracked_matches_witness:
  "NewLRUCache 3 =
     Some \<lparr>cache = \<lparr>capacity = 3, entries = []\<rparr>,
           stats = \<lparr>Hits = 0, Misses = 0, Size = 0\<rparr>, ttlMap = []\<rparr>
   \<and> (''user:3'', \<lparr>item_value = 3::int, expiresAt = None\<rparr>) \<in> set (entries (cache
        (run [CSetWithTTL 0 ''user:1'' 1 60, CSetWithTTL 0 ''order:1'' 2 60, CSet ''user:3'' 3]
           \<lparr>cache = \<lparr>capacity = 3, entries = []\<rparr>,
            stats = \<lparr>Hits = 0, Misses = 0, Size = 0\<rparr>, ttlMap = []\<rparr>)))
   \<and> expiresAt \<lparr>item_value = 3::int, expiresAt = None\<rparr> = None
   \<and> (''user:3'', \<lparr>item_value = 3::int, expiresAt = None\<rparr>) \<in> set (entries (cache (snd
        (DeleteByPattern
          (run [CSetWithTTL 0 ''user:1'' 1 60, CSetWithTTL 0 ''order:1'' 2 60, CSet ''user:3'' 3]
             \<lparr>cache = \<lparr>capacity = 3, entries = []\<rparr>,
              stats = \<lparr>Hits = 0, Misses = 0, Size = 0\<rparr>, ttlMap = []\<rparr>)
          ''user:*''))))
   \<and> ttlMap (snd
        (DeleteByPattern
          (run [CSetWithTTL 0 ''user:1'' 1 60, CSetWithTTL 0 ''order:1'' 2 60, CSet ''user:3'' 3]
             \<lparr>cache = \<lparr>capacity = 3, entries = []\<rparr>,
              stats = \<lparr>Hits = 0, Misses = 0, Size = 0\<rparr>, ttlMap = []\<rparr>)
          ''user:*'')) = [(''order:1'', 60)]
   \<and> matchesPattern ''user:1'' ''user:*''"
  using C3_deleteByPattern_removes_tracked_matches
    [of "run [CSetWithTTL 0 ''user:1'' 1 60, CSetWithTTL 0 ''order:1'' 2 60, CSet ''user:3'' 3]
           \<lparr>cache = \<lparr>capacity = 3, entries = []\<rparr>,
            stats = \<lparr>Hits = 0, Misses = 0, Size = 0\<rparr>, ttlMap = []\<rparr>"
        "''user:*''" "''user:1''" 3
        "\<lparr>cache = \<lparr>capacity = 3, entries = []\<rparr>,
          stats = \<lparr>Hits = 0, Misses = 0, Size = 0\<rparr>, ttlMap = []\<rparr>"
        "[CSetWithTTL 0 ''user:1'' 1 60, CSetWithTTL 0 ''order:1'' 2 60, CSet ''user:3'' 3]"
        "''user:3''" "\<lparr>item_value = 3::int, expiresAt = None\<rparr>"]
  by (simp add: ops_defs pat_defs)

section \<open>Expiry\<close>

lemma int64_incr:
  fixes w :: "64 word"
  assumes "sint w < 2 ^ 63 - 1"
  shows "sint (w + 1) = sint w + 1"
proof -
  have "- (2 ^ 63) \<le> sint w" using sint_ge[of w] by simp
  then have "signed_take_bit 63 (sint w + 1) = sint w + 1"
    using assms by (intro signed_take_bit_int_eq_self) simp_all
  then show ?thesis by (simp add: sint_word_add)
qed

text \<open>
  C6 as stated fails at a deadline equal to the current time: the test is
  \<open>time.Now().After(item.expiresAt)\<close>, which is false at the deadline itself. An entry with
  deadline 105 read at time 105 is a hit.
\<close>

theorem C6_get_at_deadline_hits:
  "case NewLRUCache 1 of
     None \<Rightarrow> False
   | Some c0 \<Rightarrow>
       (let c = snd (SetWithTTL c0 100 ''k'' (7::int) 5)
        in map_of (entries (cache c)) ''k'' = Some \<lparr>item_value = 7, expiresAt = Some 105\<rparr>
           \<and> (105::int) \<le> 105
           \<and> fst (Get c 105 ''k'') = (Some 7, True)
           \<and> ''k'' \<in> lru_keys (cache (snd (Get c 105 ''k'')))
           \<and> Misses (stats (snd (Get c 105 ''k''))) = Misses (stats c))"
  by (simp add: ops_defs)

text \<open>
  C6, amended. For every key that is present in the eviction engine with a deadline
  strictly less than the current time, \<open>Get\<close> returns not-found, removes the key from both
  the eviction engine and the expiration index, and increments the miss counter by exactly
  one (as an \<open>int64\<close>: by one as a number unless the counter is at its maximum), leaving the
  hit counter unchanged. For every key that is present with a deadline equal to the current
  time, \<open>Get\<close> is a hit: it returns the stored value with found, keeps the key in the
  engine, increments the hit counter and leaves the miss counter unchanged.
\<close>

theorem C6_get_expiry_is_strict:
  assumes "map_of (entries (cache c)) key = Some it" and "expiresAt it = Some d"
  shows "(d < now \<longrightarrow>
           fst (Get c now key) = (None, False)
           \<and> key \<notin> lru_keys (cache (snd (Get c now key)))
           \<and> key \<notin> ttl_keys (snd (Get c now key))
           \<and> Misses (stats (snd (Get c now key))) = Misses (stats c) + 1
           \<and> Hits (stats (snd (Get c now key))) = Hits (stats c)
           \<and> (sint (Misses (stats c)) < 2 ^ 63 - 1 \<longrightarrow>
                sint (Misses (stats (snd (Get c now key)))) = sint (Misses (stats c)) + 1))
       \<and> (d = now \<longrightarrow>
           fst (Get c now key) = (Some (item_value it), True)
           \<and> key \<in> lru_keys (cache (snd (Get c now key)))
           \<and> Hits (stats (snd (Get c now key))) = Hits (stats c) + 1
           \<and> Misses (stats (snd (Get c now key))) = Misses (stats c))"
proof (intro conjI impI)
  assume past: "d < now"
  have g: "Get c now key =
      ((None, False),
       c\<lparr>cache := lru_Remove (snd (lru_Get (cache c) key)) key,
         ttlMap := AList.delete key (ttlMap c),
         stats := (stats c)\<lparr>Misses := Misses (stats c) + 1\<rparr>\<rparr>)"
    using assms past by (simp add: Get_def lru_Get_def)
  show "fst (Get c now key) = (None, False)"
    unfolding g by simp
  show "key \<notin> lru_keys (cache (snd (Get c now key)))"
    unfolding g by (simp add: lru_keys_def lru_Remove_def keys_delete)
  show "key \<notin> ttl_keys (snd (Get c now key))"
    unfolding g by (simp add: ttl_keys_def keys_delete)
  show "Misses (stats (snd (Get c now key))) = Misses (stats c) + 1"
    unfolding g by simp
  show "Hits (stats (snd (Get c now key))) = Hits (stats c)"
    unfolding g by simp
  show "sint (Misses (stats (snd (Get c now key)))) = sint (Misses (stats c)) + 1"
    if "sint (Misses (stats c)) < 2 ^ 63 - 1"
    unfolding g using that by (simp add: int64_incr)
next
  assume at: "d = now"
  have g: "Get c now key =
      ((Some (item_value it), True),
       c\<lparr>cache := (cache c)\<lparr>entries := (key, it) # AList.delete key (entries (cache c))\<rparr>,
         stats := (stats c)\<lparr>Hits := Hits (stats c) + 1\<rparr>\<rparr>)"
    using assms at by (simp add: Get_def lru_Get_def)
  show "fst (Get c now key) = (Some (item_value it), True)"
    unfolding g by simp
  show "key \<in> lru_keys (cache (snd (Get c now key)))"
    unfolding g by (simp add: lru_keys_def)
  show "Hits (stats (snd (Get c now key))) = Hits (stats c) + 1"
    unfolding g by simp
  show "Misses (stats (snd (Get c now key))) = Misses (stats c)"
    unfolding g by simp
qed

theorem C6_get_expiry_is_strict_witness:
  "map_of (entries (cache
      \<lparr>cache = \<lparr>capacity = 1,
                 entries = [(''k'', \<lparr>item_value = 7::int, expiresAt = Some 105\<rparr>)]\<rparr>,
        stats = \<lparr>Hits = 0, Misses = 0, Size = 0\<rparr>, ttlMap = [(''k'', 105)]\<rparr>)) ''k''
     = Some \<lparr>item_value = 7, expiresAt = Some 105\<rparr>
   \<and> expiresAt \<lparr>item_value = 7::int, expiresAt = Some 105\<rparr> = Some 105
   \<and> (105::int) < 106
   \<and> sint (Misses \<lparr>Hits = 0, Misses = 0, Size = 0\<rparr>) < 2 ^ 63 - 1
   \<and> fst (Get \<lparr>cache = \<lparr>capacity = 1,
                 entries = [(''k'', \<lparr>item_value = 7::int, expiresAt = Some 105\<rparr>)]\<rparr>,
        stats = \<lparr>Hits = 0, Misses = 0, Size = 0\<rparr>, ttlMap = [(''k'', 105)]\<rparr> 106 ''k'')
     = (None, False)
   \<and> sint (Misses (stats (snd (Get \<lparr>cache = \<lparr>capacity = 1,
                 entries = [(''k'', \<lparr>item_value = 7::int, expiresAt = Some 105\<rparr>)]\<rparr>,
        stats = \<lparr>Hits = 0, Misses = 0, Size = 0\<rparr>, ttlMap = [(''k'', 105)]\<rparr> 106 ''k'')))) = 1
   \<and> fst (Get \<lparr>cache = \<lparr>capacity = 1,
                 entries = [(''k'', \<lparr>item_value = 7::int, expiresAt = Some 105\<rparr>)]\<rparr>,
        stats = \<lparr>Hits = 0, Misses = 0, Size = 0\<rparr>, ttlMap = [(''k'', 105)]\<rparr> 105 ''k'')
     = (Some 7, True)
   \<and> Hits (stats (snd (Get \<lparr>cache = \<lparr>capacity = 1,
                 entries = [(''k'', \<lparr>item_value = 7::int, expiresAt = Some 105\<rparr>)]\<rparr>,
        stats = \<lparr>Hits = 0, Misses = 0, Size = 0\<rparr>, ttlMap = [(''k'', 105)]\<rparr> 105 ''k''))) = 1"
  using C6_get_expiry_is_strict
    [of "\<lparr>cache = \<lparr>capacity = 1,
                 entries = [(''k'', \<lparr>item_value = 7::int, expiresAt = Some 105\<rparr>)]\<rparr>,
        stats = \<lparr>Hits = 0, Misses = 0, Size = 0\<rparr>, ttlMap = [(''k'', 105)]\<rparr>"
        "''k''" "\<lparr>item_value = 7::int, expiresAt = Some 105\<rparr>" 105 106]
    C6_get_expiry_is_strict
    [of "\<lparr>cache = \<lparr>capacity = 1,
                 entries = [(''k'', \<lparr>item_value = 7::int, expiresAt = Some 105\<rparr>)]\<rparr>,
        stats = \<lparr>Hits = 0, Misses = 0, Size = 0\<rparr>, ttlMap = [(''k'', 105)]\<rparr>"
        "''k''" "\<lparr>item_value = 7::int, expiresAt = Some 105\<rparr>" 105 105]
  by simp

subsection \<open>A deadline stays until the key is stored again\<close>

lemma deadline_is_shrink:
  assumes "deadline_is key d c"
    and "set (entries (cache c')) \<subseteq> set (entries (cache c))"
  shows "deadline_is key d c'"
  using assms unfolding deadline_is_def by blast

lemma deadline_is_store:
  assumes inv: "deadline_is key d c"
    and sub: "set (entries (cache c')) \<subseteq> insert (k, it) {p \<in> set (entries (cache c)). fst p \<noteq> k}"
    and new: "k = key \<Longrightarrow> expiresAt it = Some d"
  shows "deadline_is key d c'"
proof -
  have "expiresAt (snd p) = Some d"
    if mem: "p \<in> set (entries (cache c'))" and key: "fst p = key" for p
  proof (cases "p = (k, it)")
    case True
    with key new show ?thesis by simp
  next
    case False
    with mem sub have "p \<in> set (entries (cache c))" by auto
    with inv key show ?thesis unfolding deadline_is_def by blast
  qed
  then show ?thesis unfolding deadline_is_def by blast
qed

lemma step_deadline_is:
  assumes inv: "deadline_is key d c" and other: "\<not> sets_key key call"
  shows "deadline_is key d (step call c)"
proof (cases "\<forall>key. \<not> sets_key key call")
  case True
  then have sub: "set (entries (cache (step call c))) \<subseteq> set (entries (cache c))"
    by (rule step_entries_subset)
  show ?thesis by (rule deadline_is_shrink[OF inv sub])
next
  case False
  then show ?thesis
  proof (cases rule: stores_cases)
    case (bare k v)
    have "deadline_is key d (snd (Set c k v))"
    proof (rule deadline_is_store[OF inv])
      show "set (entries (cache (snd (Set c k v))))
          \<subseteq> insert (k, \<lparr>item_value = v, expiresAt = None\<rparr>)
              {p \<in> set (entries (cache c)). fst p \<noteq> k}"
        unfolding Set_entries by (rule lru_Add_set)
      show "expiresAt \<lparr>item_value = v, expiresAt = None\<rparr> = Some d" if "k = key"
        using that other bare by simp
    qed
    with bare show ?thesis by simp
  next
    case (ttl now k v ttl)
    have "deadline_is key d (snd (SetWithTTL c now k v ttl))"
    proof (rule deadline_is_store[OF inv])
      show "set (entries (cache (snd (SetWithTTL c now k v ttl))))
          \<subseteq> insert (k, \<lparr>item_value = v, expiresAt = Some (now + ttl)\<rparr>)
              {p \<in> set (entries (cache c)). fst p \<noteq> k}"
        unfolding SetWithTTL_entries by (rule lru_Add_set)
      show "expiresAt \<lparr>item_value = v, expiresAt = Some (now + ttl)\<rparr> = Some d" if "k = key"
        using that other ttl by simp
    qed
    with ttl show ?thesis by simp
  qed
qed

lemma run_deadline_is:
  "deadline_is key d c \<Longrightarrow> \<forall>call \<in> set cs. \<not> sets_key key call \<Longrightarrow>
   deadline_is key d (run cs c)"
  unfolding run_def by (induction cs arbitrary: c) (simp_all add: step_deadline_is)

lemma SetWithTTL_deadline_is:
  "deadline_is key (now + ttl) (snd (SetWithTTL c now key v ttl))"
proof -
  have "set (entries (cache (snd (SetWithTTL c now key v ttl))))
      \<subseteq> insert (key, \<lparr>item_value = v, expiresAt = Some (now + ttl)\<rparr>)
          {p \<in> set (entries (cache c)). fst p \<noteq> key}"
    unfolding SetWithTTL_entries by (rule lru_Add_set)
  then show ?thesis unfolding deadline_is_def by fastforce
qed

lemma Get_expired:
  assumes "deadline_is key d c" and "d < t"
  shows "fst (Get c t key) = (None, False)"
proof (cases "map_of (entries (cache c)) key")
  case None
  then show ?thesis by (simp add: Get_def lru_Get_def)
next
  case (Some it)
  then have "(key, it) \<in> set (entries (cache c))" by (rule map_of_SomeD)
  with assms(1) have "expiresAt it = Some d" unfolding deadline_is_def by force
  with Some assms(2) show ?thesis by (simp add: Get_def lru_Get_def)
qed

text \<open>
  C7 as stated fails for \<open>ttl = 0\<close>: the deadline is then the clock reading of the
  \<open>SetWithTTL\<close> call itself, and a \<open>Get\<close> at that same reading finds the entry.
\<close>

theorem C7_zero_ttl_hit_at_same_instant:
  "case NewLRUCache 1 of
     None \<Rightarrow> False
   | Some c0 \<Rightarrow>
       (0::int) \<le> 0
       \<and> fst (Get (snd (SetWithTTL c0 100 ''k'' (7::int) 0)) 100 ''k'') = (Some 7, True)"
  by (simp add: ops_defs)

lemma Get_at_zero_ttl: "fst (Get (snd (SetWithTTL c now key v 0)) now key) = (Some v, True)"
  using lru_Add_front[of "cache c" key "\<lparr>item_value = v, expiresAt = Some (now + 0)\<rparr>"]
  by (auto simp add: SetWithTTL_def Let_def Get_def lru_Get_def)

text \<open>
  C7, amended. For every key, value and \<open>ttl \<le> 0\<close>, after \<open>SetWithTTL(key, value, ttl)\<close>
  and any further calls that do not store the key again, every \<open>Get(key)\<close> whose clock
  reading is not before that of the \<open>SetWithTTL\<close> call, and for \<open>ttl = 0\<close> strictly after
  it, returns not-found. A \<open>Get(key)\<close> that immediately follows a
  \<open>SetWithTTL(key, value, 0)\<close>, at the very same clock reading, is a hit that returns the
  value.
\<close>

theorem C7_nonpositive_ttl_misses:
  assumes "ttl \<le> 0" and "\<forall>call \<in> set cs. \<not> sets_key key call"
    and "now \<le> t" and "ttl = 0 \<longrightarrow> now < t"
  shows "fst (Get (run cs (snd (SetWithTTL c now key v ttl))) t key) = (None, False)
    \<and> fst (Get (snd (SetWithTTL c now key v 0)) now key) = (Some v, True)"
proof
  have "deadline_is key (now + ttl) (run cs (snd (SetWithTTL c now key v ttl)))"
    using assms(2) by (intro run_deadline_is SetWithTTL_deadline_is)
  moreover have "now + ttl < t" using assms(1,3,4) by (cases "ttl = 0") simp_all
  ultimately show "fst (Get (run cs (snd (SetWithTTL c now key v ttl))) t key) = (None, False)"
    by (rule Get_expired)
  show "fst (Get (snd (SetWithTTL c now key v 0)) now key) = (Some v, True)"
    by (rule Get_at_zero_ttl)
qed

theorem C7_nonpositive_ttl_misses_witness:
  "(0::int) \<le> 0
   \<and> \<not> sets_key ''k'' (CSet ''j'' (1::int))
   \<and> \<not> sets_key ''k'' (CGet 100 ''k'' :: int call)
   \<and> \<not> sets_key ''k'' (CDelete ''j'' :: int call)
   \<and> (100::int) \<le> 101
   \<and> (100::int) < 101
   \<and> fst (Get (run [CSet ''j'' 1, CGet 100 ''k'', CDelete ''j'']
                 (snd (SetWithTTL
                    \<lparr>cache = \<lparr>capacity = 2, entries = []\<rparr>,
                      stats = \<lparr>Hits = 0, Misses = 0, Size = 0\<rparr>, ttlMap = []\<rparr>
                    100 ''k'' (7::int) 0)))
             101 ''k'') = (None, False)
   \<and> fst (Get (snd (SetWithTTL
                    \<lparr>cache = \<lparr>capacity = 2, entries = []\<rparr>,
                      stats = \<lparr>Hits = 0, Misses = 0, Size = 0\<rparr>, ttlMap = []\<rparr>
                    100 ''k'' (7::int) 0))
             100 ''k'') = (Some 7, True)"
  using C7_nonpositive_ttl_misses
    [of 0 "[CSet ''j'' (1::int), CGet 100 ''k'', CDelete ''j'']" "''k''" 100 101
        "\<lparr>cache = \<lparr>capacity = 2, entries = []\<rparr>,
          stats = \<lparr>Hits = 0, Misses = 0, Size = 0\<rparr>, ttlMap = []\<rparr>" "7::int"]
  by simp

subsection \<open>A bare \<open>Set\<close> clears the deadline\<close>

lemma Get_after_Set: "fst (Get (snd (Set c key v)) t key) = (Some v, True)"
  using lru_Add_front[of "cache c" key "\<lparr>item_value = v, expiresAt = None\<rparr>"]
  by (auto simp add: Set_def Let_def Get_def lru_Get_def)

text \<open>
  C8. For every key stored with \<open>SetWithTTL\<close>, a later \<open>Set(key, v2)\<close> clears the key's
  deadline: the key leaves the expiration index, the engine's entry carries no deadline,
  and \<open>Get(key)\<close> returns \<open>v2\<close> with found at any clock reading \<open>t\<close>, however far past the
  original deadline.
\<close>

theorem C8_set_clears_deadline:
  "fst (Get (snd (Set (run cs (snd (SetWithTTL c now key v ttl))) key v2)) t key) = (Some v2, True)
   \<and> key \<notin> ttl_keys (snd (Set (run cs (snd (SetWithTTL c now key v ttl))) key v2))
   \<and> map_of (entries (cache (snd (Set (run cs (snd (SetWithTTL c now key v ttl))) key v2)))) key
       = Some \<lparr>item_value = v2, expiresAt = None\<rparr>"
  using lru_Add_front[of "cache (run cs (snd (SetWithTTL c now key v ttl)))" key
      "\<lparr>item_value = v2, expiresAt = None\<rparr>"]
  by (auto simp add: Get_after_Set) (auto simp add: Set_def Let_def ttl_keys_def keys_delete)

section \<open>The expiration index against the engine\<close>

text \<open>
  C1 says that every key of the expiration index is a key of the engine in every reachable
  state. The code does not keep this when an insert evicts: on a cache of capacity 1,
  after \<open>SetWithTTL(a)\<close> and \<open>SetWithTTL(b)\<close> the engine has evicted \<open>a\<close>, which is still a key
  of \<open>ttlMap\<close>.
\<close>

theorem C1_eviction_leaves_stale_ttl_key:
  "case NewLRUCache 1 of
     None \<Rightarrow> False
   | Some c0 \<Rightarrow>
       (let c = run [CSetWithTTL 0 ''a'' (1::int) 60, CSetWithTTL 0 ''b'' 2 60] c0
        in ''a'' \<in> ttl_keys c \<and> ''a'' \<notin> lru_keys (cache c)
           \<and> lru_keys (cache c) = {''b''} \<and> ttl_keys c = {''a'', ''b''})"
  by (simp add: ops_defs insert_commute)

section \<open>Overlapping calls\<close>

lemma Set_stmts_compose: "fold exec (Set_stmts key v) c = snd (Set c key v)"
  by (simp add: Set_stmts_def Set_def Let_def)

lemma SetWithTTL_stmts_compose:
  "fold exec (SetWithTTL_stmts now key v ttl) c = snd (SetWithTTL c now key v ttl)"
  by (simp add: SetWithTTL_stmts_def SetWithTTL_def Let_def)

lemma Delete_stmts_compose: "fold exec (Delete_stmts key) c = snd (Delete c key)"
  by (simp add: Delete_stmts_def Delete_def)

lemma overlap_shuffle:
  "overlap now key v1 ttl v2 \<in> shuffles (SetWithTTL_stmts now key v1 ttl) (Set_stmts key v2)"
  by (simp add: overlap_def SetWithTTL_stmts_def Set_stmts_def)

lemma overlap_ttl: "key \<in> ttl_keys (fold exec (overlap now key v1 ttl v2) c)"
  by (simp add: overlap_def ttl_keys_def dom_update)

lemma overlap_entry:
  "map_of (entries (cache (fold exec (overlap now key v1 ttl v2) c))) key
     = Some \<lparr>item_value = v2, expiresAt = None\<rparr>"
  using lru_Add_front[of "lru_Add (cache c) key \<lparr>item_value = v1, expiresAt = Some (now + ttl)\<rparr>"
      key "\<lparr>item_value = v2, expiresAt = None\<rparr>"]
  by (auto simp add: overlap_def)

lemma seq_ab_ttl:
  "key \<notin> ttl_keys (fold exec (SetWithTTL_stmts now key v1 ttl @ Set_stmts key v2) c)"
  by (simp add: SetWithTTL_stmts_def Set_stmts_def ttl_keys_def keys_delete)

lemma seq_ba_entry:
  "map_of (entries (cache (fold exec (Set_stmts key v2 @ SetWithTTL_stmts now key v1 ttl) c))) key
     = Some \<lparr>item_value = v1, expiresAt = Some (now + ttl)\<rparr>"
  using lru_Add_front[of "lru_Add (cache c) key \<lparr>item_value = v2, expiresAt = None\<rparr>"
      key "\<lparr>item_value = v1, expiresAt = Some (now + ttl)\<rparr>"]
  by (auto simp add: SetWithTTL_stmts_def Set_stmts_def)

lemma not_linearizable:
  "\<not> linearizable c (SetWithTTL_stmts now key v1 ttl) (Set_stmts key v2)"
proof
  assume lin: "linearizable c (SetWithTTL_stmts now key v1 ttl) (Set_stmts key v2)"
  let ?r = "fold exec (overlap now key v1 ttl v2) c"
  from lin overlap_shuffle[of now key v1 ttl v2]
  have "?r = fold exec (SetWithTTL_stmts now key v1 ttl @ Set_stmts key v2) c
      \<or> ?r = fold exec (Set_stmts key v2 @ SetWithTTL_stmts now key v1 ttl) c"
    unfolding linearizable_def by blast
  then show False
  proof
    assume eq: "?r = fold exec (SetWithTTL_stmts now key v1 ttl @ Set_stmts key v2) c"
    have "key \<in> ttl_keys ?r" by (rule overlap_ttl)
    moreover have "key \<notin> ttl_keys (fold exec (SetWithTTL_stmts now key v1 ttl @ Set_stmts key v2) c)"
      by (rule seq_ab_ttl)
    ultimately show False unfolding eq by contradiction
  next
    assume eq: "?r = fold exec (Set_stmts key v2 @ SetWithTTL_stmts now key v1 ttl) c"
    have "map_of (entries (cache ?r)) key = Some \<lparr>item_value = v2, expiresAt = None\<rparr>"
      by (rule overlap_entry)
    moreover have "map_of (entries (cache
        (fold exec (Set_stmts key v2 @ SetWithTTL_stmts now key v1 ttl) c))) key
          = Some \<lparr>item_value = v1, expiresAt = Some (now + ttl)\<rparr>"
      by (rule seq_ba_entry)
    ultimately show False unfolding eq by simp
  qed
qed

lemmas stmt_defs = overlap_def SetWithTTL_stmts_def Set_stmts_def

text \<open>
  C10 as stated fails: no lock guards the engine, the expiration index and the counters,
  and overlapping calls are not linearizable. On a new cache of capacity 2, when
  \<open>Set(k, 2)\<close> runs between the two statements of \<open>SetWithTTL(k, 1, 60)\<close>, the engine holds
  \<open>k\<close> with the value 2 and no deadline while \<open>ttlMap\<close> holds \<open>k\<close>. Neither order of the two
  whole calls gives that state, and later calls tell it from both: \<open>Get(k)\<close> returns 2 where
  \<open>Set\<close> then \<open>SetWithTTL\<close> gives 1, and after \<open>DeleteByPattern(k)\<close> the key is gone where
  \<open>SetWithTTL\<close> then \<open>Set\<close> keeps it.
\<close>

theorem C10_overlapping_sets_not_linearizable:
  "case NewLRUCache 2 of
     None \<Rightarrow> False
   | Some c0 \<Rightarrow>
      (let pa = SetWithTTL_stmts 0 ''k'' (1::int) 60;
           pb = Set_stmts ''k'' 2;
           r = fold exec (overlap 0 ''k'' 1 60 2) c0
       in overlap 0 ''k'' 1 60 2 \<in> shuffles pa pb
          \<and> entries (cache r) = [(''k'', \<lparr>item_value = 2, expiresAt = None\<rparr>)]
          \<and> ttlMap r = [(''k'', 60)]
          \<and> ttlMap (fold exec (pa @ pb) c0) = []
          \<and> entries (cache (fold exec (pb @ pa) c0))
              = [(''k'', \<lparr>item_value = 1, expiresAt = Some 60\<rparr>)]
          \<and> fst (Get r 0 ''k'') = (Some 2, True)
          \<and> fst (Get (snd (SetWithTTL (snd (Set c0 ''k'' 2)) 0 ''k'' 1 60)) 0 ''k'')
              = (Some 1, True)
          \<and> fst (Get (snd (DeleteByPattern r ''k'')) 0 ''k'') = (None, False)
          \<and> fst (Get (snd (DeleteByPattern (snd (Set (snd (SetWithTTL c0 0 ''k'' 1 60)) ''k'' 2))
                                ''k'')) 0 ''k'')
              = (Some 2, True)
          \<and> \<not> linearizable c0 pa pb)"
  using not_linearizable[of
      "\<lparr>cache = \<lparr>capacity = 2, entries = []\<rparr>,
        stats = \<lparr>Hits = 0, Misses = 0, Size = 0\<rparr>, ttlMap = []\<rparr>" 0 "''k''" "1::int" 60 2]
  by (simp add: ops_defs pat_defs stmt_defs)

text \<open>
  C10, amended. \<open>LRUCache\<close> holds no lock: \<open>Set\<close>, \<open>SetWithTTL\<close> and \<open>Delete\<close> each run as two
  separate statements, one on the engine and then one on the expiration index. A call that
  no other call overlaps takes effect as a whole: its statements in sequence give exactly
  the operation. Calls that overlap are not linearizable: from every state, when a
  \<open>Set(key, v2)\<close> runs between the two statements of a \<open>SetWithTTL(key, v1, ttl)\<close>, the key
  is left in the engine with \<open>v2\<close> and no deadline but still in the expiration index, a
  state that neither order of the two whole calls produces.
\<close>

theorem C10_calls_atomic_only_without_overlap:
  "fold exec (Set_stmts key v) c = snd (Set c key v)
   \<and> fold exec (SetWithTTL_stmts now key v ttl) c = snd (SetWithTTL c now key v ttl)
   \<and> fold exec (Delete_stmts key) c = snd (Delete c key)
   \<and> overlap now key v1 ttl v2 \<in> shuffles (SetWithTTL_stmts now key v1 ttl) (Set_stmts key v2)
   \<and> key \<in> ttl_keys (fold exec (overlap now key v1 ttl v2) c)
   \<and> map_of (entries (cache (fold exec (overlap now key v1 ttl v2) c))) key
       = Some \<lparr>item_value = v2, expiresAt = None\<rparr>
   \<and> key \<notin> ttl_keys (fold exec (SetWithTTL_stmts now key v1 ttl @ Set_stmts key v2) c)
   \<and> map_of (entries (cache
         (fold exec (Set_stmts key v2 @ SetWithTTL_stmts now key v1 ttl) c))) key
       = Some \<lparr>item_value = v1, expiresAt = Some (now + ttl)\<rparr>
   \<and> \<not> linearizable c (SetWithTTL_stmts now key v1 ttl) (Set_stmts key v2)"
  by (intro conjI Set_stmts_compose SetWithTTL_stmts_compose Delete_stmts_compose
      overlap_shuffle overlap_ttl overlap_entry seq_ab_ttl seq_ba_entry not_linearizable)

theorem C10_calls_atomic_only_without_overlap_witness:
  "fold exec (Set_stmts ''k'' (2::int)) \<lparr>cache = \<lparr>capacity = 2, entries = []\<rparr>,
        stats = \<lparr>Hits = 0, Misses = 0, Size = 0\<rparr>, ttlMap = []\<rparr> = snd (Set \<lparr>cache = \<lparr>capacity = 2, entries = []\<rparr>,
        stats = \<lparr>Hits = 0, Misses = 0, Size = 0\<rparr>, ttlMap = []\<rparr> ''k'' 2)
   \<and> fold exec (SetWithTTL_stmts 0 ''k'' (1::int) 60) \<lparr>cache = \<lparr>capacity = 2, entries = []\<rparr>,
        stats = \<lparr>Hits = 0, Misses = 0, Size = 0\<rparr>, ttlMap = []\<rparr> = snd (SetWithTTL \<lparr>cache = \<lparr>capacity = 2, entries = []\<rparr>,
        stats = \<lparr>Hits = 0, Misses = 0, Size = 0\<rparr>, ttlMap = []\<rparr> 0 ''k'' 1 60)
   \<and> ''k'' \<in> ttl_keys (fold exec (overlap 0 ''k'' (1::int) 60 2) \<lparr>cache = \<lparr>capacity = 2, entries = []\<rparr>,
        stats = \<lparr>Hits = 0, Misses = 0, Size = 0\<rparr>, ttlMap = []\<rparr>)
   \<and> ''k'' \<notin> ttl_keys (fold exec (SetWithTTL_stmts 0 ''k'' (1::int) 60 @ Set_stmts ''k'' 2) \<lparr>cache = \<lparr>capacity = 2, entries = []\<rparr>,
        stats = \<lparr>Hits = 0, Misses = 0, Size = 0\<rparr>, ttlMap = []\<rparr>)
   \<and> \<not> linearizable \<lparr>cache = \<lparr>capacity = 2, entries = []\<rparr>,
        stats = \<lparr>Hits = 0, Misses = 0, Size = 0\<rparr>, ttlMap = []\<rparr> (SetWithTTL_stmts 0 ''k'' (1::int) 60) (Set_stmts ''k'' 2)"
  using C10_calls_atomic_only_without_overlap
    [of "''k''" "2::int" "\<lparr>cache = \<lparr>capacity = 2, entries = []\<rparr>,
        stats = \<lparr>Hits = 0, Misses = 0, Size = 0\<rparr>, ttlMap = []\<rparr>" 0 60 "1::int" "2::int"]
    C10_calls_atomic_only_without_overlap
    [of "''k''" "1::int" "\<lparr>cache = \<lparr>capacity = 2, entries = []\<rparr>,
        stats = \<lparr>Hits = 0, Misses = 0, Size = 0\<rparr>, ttlMap = []\<rparr>" 0 60 "1::int" "2::int"]
  by blast

end
